theory Spec2Isabelle
  imports Main "HOL-Library.AList"
begin

section \<open>Data model\<close>

text \<open>
  The client keeps query results of a GraphQL server in a cache and patches them from
  mutation responses (\<^verbatim>\<open>update\<close> of \<^verbatim>\<open>mutate\<close>) and from subscription
  events (\<^verbatim>\<open>updateQuery\<close> of \<^verbatim>\<open>subscribeToMore\<close>).  An \<^verbatim>\<open>id\<close> is a
  number or \<^verbatim>\<open>null\<close>; \<open>None\<close> stands for \<^verbatim>\<open>null\<close>.  The fields are those of
  \<^verbatim>\<open>MessageFragment\<close>, \<^verbatim>\<open>GROUP_QUERY\<close> and \<^verbatim>\<open>USER_QUERY\<close>.
\<close>

type_synonym ident = "int option"

record user_ref =
  u_id :: ident
  u_username :: string

record message =
  msg_id :: ident
  msg_to :: ident
  msg_from :: user_ref
  msg_createdAt :: string
  msg_text :: string

record group =
  grp_id :: ident
  grp_name :: string
  grp_users :: "user_ref list"
  grp_messages :: "message list"

record user_result =
  usr_id :: ident
  usr_groups :: "group list"
  usr_friends :: "user_ref list"

text \<open>
  The cache as the patch functions see it: \<^verbatim>\<open>readQuery\<close> and \<^verbatim>\<open>writeQuery\<close>
  address a result by the query and its variables (\<^verbatim>\<open>groupId\<close> for
  \<^verbatim>\<open>GROUP_QUERY\<close>, \<^verbatim>\<open>id\<close> for \<^verbatim>\<open>USER_QUERY\<close>).  Reading a result that is not
  in the cache throws.
\<close>

record store =
  group_cache :: "(int \<times> group) list"
  user_cache :: "(int \<times> user_result) list"

datatype error = MissingQueryData | TypeError | OperationError string

definition readQuery_group :: "store \<Rightarrow> int \<Rightarrow> error + group" where
  "readQuery_group s groupId =
     (case map_of (group_cache s) groupId of None \<Rightarrow> Inl MissingQueryData | Some g \<Rightarrow> Inr g)"

definition writeQuery_group :: "store \<Rightarrow> int \<Rightarrow> group \<Rightarrow> store" where
  "writeQuery_group s groupId g = s\<lparr>group_cache := AList.update groupId g (group_cache s)\<rparr>"

definition readQuery_user :: "store \<Rightarrow> int \<Rightarrow> error + user_result" where
  "readQuery_user s userId =
     (case map_of (user_cache s) userId of None \<Rightarrow> Inl MissingQueryData | Some u \<Rightarrow> Inr u)"

definition writeQuery_user :: "store \<Rightarrow> int \<Rightarrow> user_result \<Rightarrow> store" where
  "writeQuery_user s userId u = s\<lparr>user_cache := AList.update userId u (user_cache s)\<rparr>"

section \<open>Mutation patches (messages, finalize-group and group-details screens)\<close>

text \<open>
  \<^verbatim>\<open>newMessage.id !== null && existingMessages.some(message => newMessage.id === message.id)\<close>
\<close>

definition isDuplicateMessage :: "message \<Rightarrow> message list \<Rightarrow> bool" where
  "isDuplicateMessage newMessage existingMessages =
     (msg_id newMessage \<noteq> None \<and>
      list_ex (\<lambda>message. msg_id newMessage = msg_id message) existingMessages)"

definition isDuplicateGroup :: "group \<Rightarrow> group list \<Rightarrow> bool" where
  "isDuplicateGroup newGroup existingGroups =
     (grp_id newGroup \<noteq> None \<and>
      list_ex (\<lambda>group. grp_id newGroup = grp_id group) existingGroups)"

text \<open>
  \<^verbatim>\<open>update\<close> of \<^verbatim>\<open>createMessageMutation\<close>: read the group result, return without
  writing when the message is already there, otherwise \<^verbatim>\<open>unshift\<close> it and write
  the result back.
\<close>

definition createMessage_update :: "store \<Rightarrow> int \<Rightarrow> message \<Rightarrow> error + store" where
  "createMessage_update s groupId createMessage =
     (case readQuery_group s groupId of
        Inl e \<Rightarrow> Inl e
      | Inr data \<Rightarrow>
          if isDuplicateMessage createMessage (grp_messages data) then Inr s
          else Inr (writeQuery_group s groupId
                      (data\<lparr>grp_messages := createMessage # grp_messages data\<rparr>)))"

text \<open>
  \<^verbatim>\<open>update\<close> of \<^verbatim>\<open>createGroupMutation\<close>: the same with \<^verbatim>\<open>push\<close> on the groups
  of the user result.
\<close>

definition createGroup_update :: "store \<Rightarrow> int \<Rightarrow> group \<Rightarrow> error + store" where
  "createGroup_update s userId createGroup =
     (case readQuery_user s userId of
        Inl e \<Rightarrow> Inl e
      | Inr data \<Rightarrow>
          if isDuplicateGroup createGroup (usr_groups data) then Inr s
          else Inr (writeQuery_user s userId
                      (data\<lparr>usr_groups := usr_groups data @ [createGroup]\<rparr>)))"

text \<open>
  \<^verbatim>\<open>update\<close> of \<^verbatim>\<open>deleteGroupMutation\<close> and of \<^verbatim>\<open>leaveGroupMutation\<close>:
  \<^verbatim>\<open>data.user.groups.filter(g => deleteGroup.id !== g.id)\<close> on the result of the user
  query with \<^verbatim>\<open>id: 1\<close>.
\<close>

definition deleteGroup_update :: "store \<Rightarrow> ident \<Rightarrow> error + store" where
  "deleteGroup_update s deleteGroup_id =
     (case readQuery_user s 1 of
        Inl e \<Rightarrow> Inl e
      | Inr data \<Rightarrow>
          Inr (writeQuery_user s 1
                 (data\<lparr>usr_groups := filter (\<lambda>g. deleteGroup_id \<noteq> grp_id g) (usr_groups data)\<rparr>)))"

definition leaveGroup_update :: "store \<Rightarrow> ident \<Rightarrow> error + store" where
  "leaveGroup_update s leaveGroup_id =
     (case readQuery_user s 1 of
        Inl e \<Rightarrow> Inl e
      | Inr data \<Rightarrow>
          Inr (writeQuery_user s 1
                 (data\<lparr>usr_groups := filter (\<lambda>g. leaveGroup_id \<noteq> grp_id g) (usr_groups data)\<rparr>)))"

text \<open>How many messages of a list carry a given id.\<close>

definition count_id :: "ident \<Rightarrow> message list \<Rightarrow> nat" where
  "count_id i ms = length (filter (\<lambda>m. msg_id m = i) ms)"

definition messages_of :: "store \<Rightarrow> int \<Rightarrow> message list" where
  "messages_of s groupId =
     (case map_of (group_cache s) groupId of None \<Rightarrow> [] | Some g \<Rightarrow> grp_messages g)"

text \<open>Concrete data used by the examples.\<close>

definition justyn :: user_ref where
  "justyn = \<lparr>u_id = Some 1, u_username = ''Justyn.Kautzer''\<rparr>"

text \<open>
  The \<^verbatim>\<open>optimisticResponse\<close> of the createMessage mutation: id -1, the text that
  was typed, the time of the call, the faked sender and the group.
\<close>

definition optimisticResponse :: "string \<Rightarrow> int \<Rightarrow> string \<Rightarrow> message" where
  "optimisticResponse txt groupId now =
     \<lparr>msg_id = Some (- 1), msg_to = Some groupId, msg_from = justyn,
      msg_createdAt = now, msg_text = txt\<rparr>"

definition mk_message :: "ident \<Rightarrow> int \<Rightarrow> string \<Rightarrow> message" where
  "mk_message i groupId txt =
     \<lparr>msg_id = i, msg_to = Some groupId, msg_from = justyn,
      msg_createdAt = ''2017-06-01T00:00:00.000Z'', msg_text = txt\<rparr>"

definition mk_group :: "ident \<Rightarrow> message list \<Rightarrow> group" where
  "mk_group i ms = \<lparr>grp_id = i, grp_name = ''chat'', grp_users = [justyn], grp_messages = ms\<rparr>"

definition mk_store :: "int \<Rightarrow> message list \<Rightarrow> store" where
  "mk_store groupId ms = \<lparr>group_cache = [(groupId, mk_group (Some groupId) ms)], user_cache = []\<rparr>"

definition user0 :: user_result where
  "user0 = \<lparr>usr_id = Some 1,
             usr_groups = [mk_group (Some 7) [mk_message (Some 5) 7 ''old'']],
             usr_friends = []\<rparr>"

definition user_null :: user_result where
  "user_null = \<lparr>usr_id = Some 1, usr_groups = [mk_group None []], usr_friends = []\<rparr>"

section \<open>Subscription reducers (navigation)\<close>

text \<open>
  \<^verbatim>\<open>newDocument.id !== null && existingDocuments.some(doc => newDocument.id === doc.id)\<close>.
  The function is used on messages and on groups; the first argument reads the
  \<^verbatim>\<open>id\<close> field of a document.
\<close>

definition isDuplicateDocument :: "('a \<Rightarrow> ident) \<Rightarrow> 'a \<Rightarrow> 'a list \<Rightarrow> bool" where
  "isDuplicateDocument ident_of newDocument existingDocuments =
     (ident_of newDocument \<noteq> None \<and>
      list_ex (\<lambda>doc. ident_of newDocument = ident_of doc) existingDocuments)"

text \<open>\<^verbatim>\<open>Array.prototype.indexOf\<close>: the first index holding the value, or -1.\<close>

fun indexOf_from :: "'a list \<Rightarrow> 'a \<Rightarrow> int \<Rightarrow> int" where
  "indexOf_from [] x k = - 1"
| "indexOf_from (y # ys) x k = (if y = x then k else indexOf_from ys x (k + 1))"

definition indexOf :: "'a list \<Rightarrow> 'a \<Rightarrow> int" where
  "indexOf xs x = indexOf_from xs x 0"

text \<open>
  \<^verbatim>\<open>updateQuery\<close> of \<^verbatim>\<open>subscribeToMessages\<close>.  \<^verbatim>\<open>previousGroups[groupIndex]\<close>
  is \<^verbatim>\<open>undefined\<close> for an index outside the list, and reading \<^verbatim>\<open>.messages\<close>
  of it throws a TypeError.  \<^verbatim>\<open>$set\<close> replaces the messages of the group at
  \<^verbatim>\<open>groupIndex\<close>.  \<open>msg_to\<close> is \<^verbatim>\<open>newMessage.to.id\<close>.
\<close>

definition subscribeToMessages_updateQuery :: "user_result \<Rightarrow> message \<Rightarrow> error + user_result" where
  "subscribeToMessages_updateQuery previousResult newMessage =
     (let previousGroups = usr_groups previousResult;
          groupIndex = indexOf (map grp_id previousGroups) (msg_to newMessage)
      in if groupIndex < 0 \<or> int (length previousGroups) \<le> groupIndex then Inl TypeError
         else if isDuplicateDocument msg_id newMessage
                   (grp_messages (previousGroups ! nat groupIndex))
         then Inr previousResult
         else Inr (previousResult\<lparr>usr_groups :=
                     previousGroups[nat groupIndex :=
                       (previousGroups ! nat groupIndex)\<lparr>grp_messages := [newMessage]\<rparr>]\<rparr>))"

text \<open>\<^verbatim>\<open>updateQuery\<close> of \<^verbatim>\<open>subscribeToGroups\<close>; \<^verbatim>\<open>$push\<close> appends.\<close>

definition subscribeToGroups_updateQuery :: "user_result \<Rightarrow> group \<Rightarrow> user_result" where
  "subscribeToGroups_updateQuery previousResult newGroup =
     (let previousGroups = usr_groups previousResult
      in if isDuplicateDocument grp_id newGroup previousGroups then previousResult
         else previousResult\<lparr>usr_groups := previousGroups @ [newGroup]\<rparr>)"

text \<open>The two subscriptions as one reducer over the event that arrived.\<close>

datatype sub_event = MessageAdded message | GroupAdded group

fun updateQuery :: "user_result \<Rightarrow> sub_event \<Rightarrow> error + user_result" where
  "updateQuery previousResult (MessageAdded newMessage) =
     subscribeToMessages_updateQuery previousResult newMessage"
| "updateQuery previousResult (GroupAdded newGroup) =
     Inr (subscribeToGroups_updateQuery previousResult newGroup)"

text \<open>The id carried by an event and the ids of the list the entity goes to: the messages
  of the first cached group with the id \<^verbatim>\<open>to.id\<close>, or the groups of the user.\<close>

fun event_id :: "sub_event \<Rightarrow> ident" where
  "event_id (MessageAdded m) = msg_id m"
| "event_id (GroupAdded g) = grp_id g"

fun target_ids :: "user_result \<Rightarrow> sub_event \<Rightarrow> ident list" where
  "target_ids u (MessageAdded m) =
     (case find (\<lambda>g. grp_id g = msg_to m) (usr_groups u) of
        None \<Rightarrow> []
      | Some g \<Rightarrow> map msg_id (grp_messages g))"
| "target_ids u (GroupAdded g) = map grp_id (usr_groups u)"

section \<open>Sequences of cache patches\<close>

text \<open>
  The subscriptions hang on the user query with \<^verbatim>\<open>variables: { id: 1 }\<close>: the
  reducer gets the cached result of that query and its result is written back.
\<close>

definition apply_updateQuery :: "store \<Rightarrow> sub_event \<Rightarrow> error + store" where
  "apply_updateQuery s ev =
     (case readQuery_user s 1 of
        Inl e \<Rightarrow> Inl e
      | Inr previousResult \<Rightarrow>
          (case updateQuery previousResult ev of
             Inl e \<Rightarrow> Inl e
           | Inr r \<Rightarrow> Inr (writeQuery_user s 1 r)))"

datatype cache_event =
    CreateMessageResult int message
  | CreateGroupResult int group
  | DeleteGroupResult ident
  | LeaveGroupResult ident
  | Subscription sub_event

fun apply_event :: "store \<Rightarrow> cache_event \<Rightarrow> error + store" where
  "apply_event s (CreateMessageResult groupId m) = createMessage_update s groupId m"
| "apply_event s (CreateGroupResult userId g) = createGroup_update s userId g"
| "apply_event s (DeleteGroupResult i) = deleteGroup_update s i"
| "apply_event s (LeaveGroupResult i) = leaveGroup_update s i"
| "apply_event s (Subscription ev) = apply_updateQuery s ev"

text \<open>
  Events are handled one after the other; a handler that throws leaves the cache as it
  was and the next event is handled.
\<close>

fun run :: "store \<Rightarrow> cache_event list \<Rightarrow> store" where
  "run s [] = s"
| "run s (ev # evs) = run (case apply_event s ev of Inl e \<Rightarrow> s | Inr s' \<Rightarrow> s') evs"

text \<open>No two entries of a list of ids are the same non-null id.\<close>

definition unique_ids :: "ident list \<Rightarrow> bool" where
  "unique_ids ids = distinct (filter (\<lambda>i. i \<noteq> None) ids)"

definition group_ok :: "group \<Rightarrow> bool" where
  "group_ok g = unique_ids (map msg_id (grp_messages g))"

definition user_ok :: "user_result \<Rightarrow> bool" where
  "user_ok u = (unique_ids (map grp_id (usr_groups u)) \<and> list_all group_ok (usr_groups u))"

definition store_ok :: "store \<Rightarrow> bool" where
  "store_ok s = (list_all (\<lambda>kv. group_ok (snd kv)) (group_cache s)
               \<and> list_all (\<lambda>kv. user_ok (snd kv)) (user_cache s))"

text \<open>A group that arrives from the server brings messages with unique ids.\<close>

fun event_ok :: "cache_event \<Rightarrow> bool" where
  "event_ok (CreateGroupResult userId g) = group_ok g"
| "event_ok (Subscription (GroupAdded g)) = group_ok g"
| "event_ok _ = True"

text \<open>At most one message of every cached group result carries the id.\<close>

definition at_most_one :: "ident \<Rightarrow> store \<Rightarrow> bool" where
  "at_most_one i s = list_all (\<lambda>kv. count_id i (grp_messages (snd kv)) \<le> 1) (group_cache s)"

text \<open>A cache and a sequence of events used by the examples.\<close>

definition store0 :: store where
  "store0 = \<lparr>group_cache = [(7, mk_group (Some 7) [mk_message (Some 5) 7 ''old''])],
              user_cache = [(1, user0)]\<rparr>"

definition events0 :: "cache_event list" where
  "events0 = [CreateMessageResult 7 (optimisticResponse ''hi'' 7 ''now''),
              CreateMessageResult 7 (optimisticResponse ''ho'' 7 ''later''),
              Subscription (MessageAdded (mk_message (Some 42) 7 ''hi'')),
              CreateMessageResult 7 (mk_message (Some 42) 7 ''hi''),
              CreateMessageResult 7 (mk_message (Some 42) 7 ''hi''),
              Subscription (GroupAdded (mk_group (Some 8) [])),
              CreateGroupResult 1 (mk_group (Some 8) []),
              Subscription (MessageAdded (mk_message (Some 43) 9 ''lost''))]"

section \<open>Transport middleware and afterware (app)\<close>

text \<open>
  \<^verbatim>\<open>store.getState().auth.jwt\<close> is absent (\<open>None\<close>) or a string;
  \<^verbatim>\<open>if (jwt)\<close> holds for a string that is not empty.
\<close>

record app_state =
  auth_jwt :: "string option"

record request =
  req_headers :: "(string \<times> string) list option"

definition truthy :: "string option \<Rightarrow> bool" where
  "truthy j = (case j of None \<Rightarrow> False | Some v \<Rightarrow> v \<noteq> [])"

text \<open>
  \<^verbatim>\<open>applyBatchMiddleware(req, next)\<close>: the request as it leaves the middleware and
  the number of calls of \<^verbatim>\<open>next\<close>.
\<close>

definition applyBatchMiddleware :: "app_state \<Rightarrow> request \<Rightarrow> request \<times> nat" where
  "applyBatchMiddleware st req =
     (let headers = (case req_headers req of None \<Rightarrow> [] | Some h \<Rightarrow> h);
          jwt = auth_jwt st
      in (req\<lparr>req_headers :=
               Some (if truthy jwt
                     then AList.update ''authorization'' (''Bearer '' @ the jwt) headers
                     else headers)\<rparr>, 1))"

record connection_params =
  cp_jwt :: "string option"

definition connectionParams :: "app_state \<Rightarrow> connection_params" where
  "connectionParams st = \<lparr>cp_jwt = auth_jwt st\<rparr>"

text \<open>
  Modelled from the spec: the Subscription Channel, that is the subscription client of
  the transport library, which the app creates with \<^verbatim>\<open>reconnect: true\<close>,
  \<^verbatim>\<open>lazy: true\<close> and the function \<^verbatim>\<open>connectionParams\<close> and which is not among
  the sources.  It is a state machine over idle, connecting, open and reconnecting.  No
  socket is established until the first subscription; later subscriptions share the
  connection.  On every connection or reconnection attempt the current credential is sent
  as connection metadata, and the attempt is made when the credential is absent as well.
  After a loss of the connection the channel retries, each time its backoff timer fires,
  for as long as the socket does not open.  The second component of a step is the
  metadata of the attempts it makes.
\<close>

datatype channel_state = Idle | Connecting | Open | Reconnecting

datatype channel_event = Subscribe | SocketOpened | SocketLost | RetryTimer

fun channel_step ::
  "app_state \<Rightarrow> channel_state \<Rightarrow> channel_event \<Rightarrow> channel_state \<times> connection_params list" where
  "channel_step st Idle Subscribe = (Connecting, [connectionParams st])"
| "channel_step st ch Subscribe = (ch, [])"
| "channel_step st Connecting SocketOpened = (Open, [])"
| "channel_step st Reconnecting SocketOpened = (Open, [])"
| "channel_step st Connecting SocketLost = (Reconnecting, [])"
| "channel_step st Open SocketLost = (Reconnecting, [])"
| "channel_step st Reconnecting RetryTimer = (Reconnecting, [connectionParams st])"
| "channel_step st ch ev = (ch, [])"

text \<open>
  Modelled from the spec: the credential is process-wide and mutable, set on sign-in and
  cleared on sign-out (the auth reducer of the app is not among the sources).  The
  client as a whole takes credential events, batches that are about to go out and
  channel events one at a time; a batch goes through \<^verbatim>\<open>applyBatchMiddleware\<close> and
  a connection attempt through \<^verbatim>\<open>connectionParams\<close>, each with the state of that
  moment.  The second component of a step lists the network actions it causes.
\<close>

datatype client_event =
    CredentialSet string
  | CredentialCleared
  | BatchPrepared request
  | Channel channel_event

datatype net_action = BatchSent request | ConnectAttempt connection_params

record client =
  cl_app :: app_state
  cl_channel :: channel_state

fun client_step :: "client \<Rightarrow> client_event \<Rightarrow> client \<times> net_action list" where
  "client_step c (CredentialSet token) = (c\<lparr>cl_app := (cl_app c)\<lparr>auth_jwt := Some token\<rparr>\<rparr>, [])"
| "client_step c CredentialCleared = (c\<lparr>cl_app := (cl_app c)\<lparr>auth_jwt := None\<rparr>\<rparr>, [])"
| "client_step c (BatchPrepared req) = (c, [BatchSent (fst (applyBatchMiddleware (cl_app c) req))])"
| "client_step c (Channel ev) =
     (case channel_step (cl_app c) (cl_channel c) ev of
        (ch, attempts) \<Rightarrow> (c\<lparr>cl_channel := ch\<rparr>, map ConnectAttempt attempts))"

fun client_run :: "client \<Rightarrow> client_event list \<Rightarrow> client \<times> net_action list" where
  "client_run c [] = (c, [])"
| "client_run c (ev # evs) =
     (case client_step c ev of
        (c', actions) \<Rightarrow>
          (case client_run c' evs of (c'', later) \<Rightarrow> (c'', actions @ later)))"

text \<open>
  The credential in force after a sequence of events: the last one set, unless it was
  cleared since.
\<close>

fun credential_after :: "string option \<Rightarrow> client_event list \<Rightarrow> string option" where
  "credential_after cred [] = cred"
| "credential_after cred (CredentialSet token # evs) = credential_after (Some token) evs"
| "credential_after cred (CredentialCleared # evs) = credential_after None evs"
| "credential_after cred (ev # evs) = credential_after cred evs"

record gql_error =
  err_message :: string

record response =
  resp_data :: "string option"
  resp_errors :: "gql_error list option"

datatype action = Logout

record afterware_effects =
  dispatched :: "action list"
  console_log :: "gql_error list list"
  next_calls :: nat
  passed_on :: "response list"

text \<open>
  The \<^verbatim>\<open>forEach\<close> of \<^verbatim>\<open>applyBatchAfterware\<close> with its flag
  \<^verbatim>\<open>isUnauthorized\<close> and the lines it logs.  \<^verbatim>\<open>if (response.errors)\<close> holds for
  every array, the empty one too.
\<close>

fun scan_responses :: "response list \<Rightarrow> bool \<times> gql_error list list \<Rightarrow> bool \<times> gql_error list list" where
  "scan_responses [] st = st"
| "scan_responses (response # rest) (isUnauthorized, lg) =
     (case resp_errors response of
        None \<Rightarrow> scan_responses rest (isUnauthorized, lg)
      | Some errors \<Rightarrow>
          scan_responses rest
            (if list_ex (\<lambda>e. err_message e = ''Unauthorized'') errors then True else isUnauthorized,
             lg @ [errors]))"

definition applyBatchAfterware :: "response list \<Rightarrow> afterware_effects" where
  "applyBatchAfterware responses =
     (let (isUnauthorized, lg) = scan_responses responses (False, [])
      in \<lparr>dispatched = (if isUnauthorized then [Logout] else []),
          console_log = lg, next_calls = 1, passed_on = responses\<rparr>)"

text \<open>A response that carries an error with the message \<^verbatim>\<open>Unauthorized\<close>.\<close>

definition unauthorized :: "response \<Rightarrow> bool" where
  "unauthorized r =
     (case resp_errors r of None \<Rightarrow> False
      | Some errors \<Rightarrow> list_ex (\<lambda>e. err_message e = ''Unauthorized'') errors)"

text \<open>Concrete responses, states and requests used by the examples.\<close>

definition ok_response :: response where
  "ok_response = \<lparr>resp_data = Some ''data'', resp_errors = None\<rparr>"

definition failed_response :: "string \<Rightarrow> response" where
  "failed_response msg = \<lparr>resp_data = None, resp_errors = Some [\<lparr>err_message = msg\<rparr>]\<rparr>"

definition signed_in :: "string \<Rightarrow> app_state" where
  "signed_in token = \<lparr>auth_jwt = Some token\<rparr>"

definition signed_out :: app_state where
  "signed_out = \<lparr>auth_jwt = None\<rparr>"

definition fresh_request :: request where
  "fresh_request = \<lparr>req_headers = None\<rparr>"

definition client0 :: client where
  "client0 = \<lparr>cl_app = signed_out, cl_channel = Idle\<rparr>"

definition session0 :: "client_event list" where
  "session0 = [CredentialSet ''abc'', BatchPrepared fresh_request, Channel Subscribe,
               Channel SocketOpened, CredentialCleared, Channel SocketLost]"

section \<open>Mutations with an optimistic response\<close>

text \<open>
  Modelled from the spec: the Mutation Reconciliation Engine, that is \<^verbatim>\<open>mutate\<close> of
  the client library, which the screens call with \<^verbatim>\<open>optimisticResponse\<close> and
  \<^verbatim>\<open>update\<close> and which is not among the sources.  The speculative result is applied
  to the cache through the patch function and tagged as speculative; on completion the
  speculative effect is replaced by the authoritative one by invoking the patch function
  against the real response; on failure the speculative effect is reverted and the error
  is surfaced.  \<open>base\<close> is the cache without speculative effects and \<open>pending\<close> the
  speculative result of the request in flight, so that \<open>visible\<close> is what a render
  sees, the tag is the field \<open>pending\<close>, and reverting restores \<open>base\<close>.  The patch
  function of the screens does not remove a speculative entry itself.
\<close>

record 'r reconciliation =
  base :: store
  pending :: "'r option"

definition visible :: "(store \<Rightarrow> 'r \<Rightarrow> error + store) \<Rightarrow> 'r reconciliation \<Rightarrow> store" where
  "visible patch rc =
     (case pending rc of
        None \<Rightarrow> base rc
      | Some speculativeResult \<Rightarrow>
          (case patch (base rc) speculativeResult of Inl e \<Rightarrow> base rc | Inr s \<Rightarrow> s))"

definition mutate_issue :: "store \<Rightarrow> 'r option \<Rightarrow> 'r reconciliation" where
  "mutate_issue s speculativeResult = \<lparr>base = s, pending = speculativeResult\<rparr>"

definition mutate_settle ::
  "(store \<Rightarrow> 'r \<Rightarrow> error + store) \<Rightarrow> 'r reconciliation \<Rightarrow> error + 'r
     \<Rightarrow> 'r reconciliation \<times> (error + 'r)" where
  "mutate_settle patch rc outcome =
     (case outcome of
        Inl e \<Rightarrow> (rc\<lparr>pending := None\<rparr>, Inl e)
      | Inr authoritativeResult \<Rightarrow>
          (case patch (base rc) authoritativeResult of
             Inl e \<Rightarrow> (rc\<lparr>pending := None\<rparr>, Inl e)
           | Inr s \<Rightarrow> (\<lparr>base = s, pending = None\<rparr>, Inr authoritativeResult)))"

section \<open>Race safety of the createMessage patch\<close>

lemma list_ex_count_id: "list_ex (\<lambda>m. i = msg_id m) ms \<longleftrightarrow> 0 < count_id i ms"
  by (induction ms) (auto simp: count_id_def)

text \<open>
  Claim C1.  When the message of the mutation response (a non-null id such as 42) is
  already in the cached messages of the group, because the subscription event for it was
  applied first, the patch function of the createMessage mutation finds it to be a
  duplicate and returns without writing: the cache is unchanged, and a list that held the
  id once still holds it once.
\<close>

theorem createMessage_update_race_safe:
  assumes "map_of (group_cache s) groupId = Some data"
    and "msg_id createMessage = Some i"
    and "count_id (Some i) (grp_messages data) = 1"
  shows "isDuplicateMessage createMessage (grp_messages data)
       \<and> createMessage_update s groupId createMessage = Inr s
       \<and> count_id (Some i) (messages_of s groupId) = 1"
  using assms
  by (simp add: createMessage_update_def readQuery_group_def isDuplicateMessage_def
      list_ex_count_id messages_of_def)

theorem createMessage_update_race_safe_witness:
  "createMessage_update (mk_store 7 [mk_message (Some 42) 7 ''hi''])
      7 (mk_message (Some 42) 7 ''hi'')
     = Inr (mk_store 7 [mk_message (Some 42) 7 ''hi''])
   \<and> count_id (Some 42) (messages_of (mk_store 7 [mk_message (Some 42) 7 ''hi'']) 7) = 1"
  using createMessage_update_race_safe
    [of "mk_store 7 [mk_message (Some 42) 7 ''hi'']" 7
        "mk_group (Some 7) [mk_message (Some 42) 7 ''hi'']"
        "mk_message (Some 42) 7 ''hi''" 42]
  by (simp add: mk_store_def mk_group_def mk_message_def count_id_def)

section \<open>The messageAdded reducer needs the target group in the cache\<close>

lemma indexOf_from_notin: "x \<notin> set xs \<Longrightarrow> indexOf_from xs x k = - 1"
  by (induction xs arbitrary: k) auto

lemma indexOf_from_in:
  "x \<in> set xs \<Longrightarrow> k \<le> indexOf_from xs x k \<and> indexOf_from xs x k < k + int (length xs)
     \<and> xs ! nat (indexOf_from xs x k - k) = x"
proof (induction xs arbitrary: k)
  case Nil
  then show ?case by simp
next
  case (Cons y ys)
  show ?case
  proof (cases "y = x")
    case True
    then show ?thesis by simp
  next
    case False
    with Cons.prems have "x \<in> set ys" by simp
    from Cons.IH [OF this, of "k + 1"]
    have ih: "k + 1 \<le> indexOf_from ys x (k + 1)"
      "indexOf_from ys x (k + 1) < k + 1 + int (length ys)"
      "ys ! nat (indexOf_from ys x (k + 1) - (k + 1)) = x" by simp_all
    have "nat (indexOf_from ys x (k + 1) - k) = Suc (nat (indexOf_from ys x (k + 1) - (k + 1)))"
      using ih(1) by linarith
    with ih False show ?thesis by simp
  qed
qed

lemma indexOf_notin: "x \<notin> set xs \<Longrightarrow> indexOf xs x = - 1"
  by (simp add: indexOf_def indexOf_from_notin)

lemma indexOf_in:
  "x \<in> set xs \<Longrightarrow> 0 \<le> indexOf xs x \<and> indexOf xs x < int (length xs) \<and> xs ! nat (indexOf xs x) = x"
  using indexOf_from_in [of x xs 0] by (simp add: indexOf_def)

text \<open>
  Claim C9.  The messageAdded reducer looks the target group up by \<^verbatim>\<open>to.id\<close> in the
  cached groups of the user and reads the messages of the group at that index without a
  check.  For every event whose \<^verbatim>\<open>to.id\<close> matches no cached group the index is -1 and
  the read throws; when the group is in the list the reducer returns a result.
\<close>

theorem messageAdded_needs_cached_group:
  "(msg_to newMessage \<notin> set (map grp_id (usr_groups previousResult)) \<longrightarrow>
      indexOf (map grp_id (usr_groups previousResult)) (msg_to newMessage) = - 1
      \<and> subscribeToMessages_updateQuery previousResult newMessage = Inl TypeError)
   \<and> (msg_to newMessage \<in> set (map grp_id (usr_groups previousResult)) \<longrightarrow>
      (\<exists>r. subscribeToMessages_updateQuery previousResult newMessage = Inr r))"
proof (intro conjI impI)
  assume a: "msg_to newMessage \<notin> set (map grp_id (usr_groups previousResult))"
  from indexOf_notin [OF a]
  show "indexOf (map grp_id (usr_groups previousResult)) (msg_to newMessage) = - 1" .
  then show "subscribeToMessages_updateQuery previousResult newMessage = Inl TypeError"
    by (simp add: subscribeToMessages_updateQuery_def Let_def)
next
  assume a: "msg_to newMessage \<in> set (map grp_id (usr_groups previousResult))"
  from indexOf_in [OF a]
  show "\<exists>r. subscribeToMessages_updateQuery previousResult newMessage = Inr r"
    by (simp add: subscribeToMessages_updateQuery_def Let_def)
qed

theorem messageAdded_needs_cached_group_witness:
  "subscribeToMessages_updateQuery user0 (mk_message (Some 6) 8 ''hi'') = Inl TypeError
   \<and> (\<exists>r. subscribeToMessages_updateQuery user0 (mk_message (Some 6) 7 ''hi'') = Inr r)"
  using messageAdded_needs_cached_group [of "mk_message (Some 6) 8 ''hi''" user0]
    messageAdded_needs_cached_group [of "mk_message (Some 6) 7 ''hi''" user0]
  by (simp add: user0_def mk_group_def mk_message_def)


section \<open>The dedup rule of the subscription reducers\<close>

lemma find_indexOf_from:
  "find (\<lambda>g. f g = x) xs =
     (if x \<in> set (map f xs) then Some (xs ! nat (indexOf_from (map f xs) x k - k)) else None)"
proof (induction xs arbitrary: k)
  case Nil
  then show ?case by simp
next
  case (Cons y ys)
  show ?case
  proof (cases "f y = x")
    case True
    then show ?thesis by simp
  next
    case False
    show ?thesis
    proof (cases "x \<in> set (map f ys)")
      case True
      from indexOf_from_in [OF True, of "k + 1"]
      have "nat (indexOf_from (map f ys) x (k + 1) - k)
              = Suc (nat (indexOf_from (map f ys) x (k + 1) - (k + 1)))"
        by linarith
      with False True Cons.IH [of "k + 1"] show ?thesis by simp
    next
      case notin: False
      with False Cons.IH [of "k + 1"] show ?thesis by simp
    qed
  qed
qed

lemma find_indexOf:
  "find (\<lambda>g. f g = x) xs =
     (if x \<in> set (map f xs) then Some (xs ! nat (indexOf (map f xs) x)) else None)"
  using find_indexOf_from [of f x xs 0] by (simp add: indexOf_def)

lemma map_grp_id_update:
  "map grp_id (gs[i := (gs ! i)\<lparr>grp_messages := ms\<rparr>]) = map grp_id gs"
proof (cases "i < length gs")
  case True
  then have "(map grp_id gs)[i := grp_id (gs ! i)] = map grp_id gs"
    by (metis list_update_id nth_map)
  then show ?thesis by (simp add: map_update)
next
  case False
  then have "length gs \<le> i" by simp
  then show ?thesis by (simp add: list_update_beyond)
qed

lemma messageAdded_result:
  assumes "msg_to m \<in> set (map grp_id (usr_groups u))"
  shows "subscribeToMessages_updateQuery u m =
     (if isDuplicateDocument msg_id m
           (grp_messages (usr_groups u ! nat (indexOf (map grp_id (usr_groups u)) (msg_to m))))
      then Inr u
      else Inr (u\<lparr>usr_groups := (usr_groups u)[nat (indexOf (map grp_id (usr_groups u)) (msg_to m)) :=
              (usr_groups u ! nat (indexOf (map grp_id (usr_groups u)) (msg_to m)))\<lparr>grp_messages := [m]\<rparr>]\<rparr>))"
  using indexOf_in [OF assms]
  by (simp add: subscribeToMessages_updateQuery_def Let_def)

lemma messageAdded_idem:
  assumes id: "msg_id m \<noteq> None"
    and r: "subscribeToMessages_updateQuery u m = Inr r"
  shows "subscribeToMessages_updateQuery r m = Inr r"
proof -
  let ?gi = "nat (indexOf (map grp_id (usr_groups u)) (msg_to m))"
  have mem: "msg_to m \<in> set (map grp_id (usr_groups u))"
  proof (rule ccontr)
    assume "msg_to m \<notin> set (map grp_id (usr_groups u))"
    from indexOf_notin [OF this] r show False
      by (simp add: subscribeToMessages_updateQuery_def Let_def)
  qed
  from indexOf_in [OF mem] have lt: "?gi < length (usr_groups u)" by auto
  show ?thesis
  proof (cases "isDuplicateDocument msg_id m (grp_messages (usr_groups u ! ?gi))")
    case True
    with r mem have "r = u" by (simp add: messageAdded_result)
    with r show ?thesis by simp
  next
    case False
    with r mem have req: "r = u\<lparr>usr_groups := (usr_groups u)[?gi :=
              (usr_groups u ! ?gi)\<lparr>grp_messages := [m]\<rparr>]\<rparr>"
      by (simp add: messageAdded_result)
    have ids: "map grp_id (usr_groups r) = map grp_id (usr_groups u)"
      by (simp add: req map_grp_id_update)
    have mem': "msg_to m \<in> set (map grp_id (usr_groups r))"
      using mem ids by simp
    have "grp_messages (usr_groups r ! ?gi) = [m]"
      using lt by (simp add: req)
    then have "isDuplicateDocument msg_id m
        (grp_messages (usr_groups r ! nat (indexOf (map grp_id (usr_groups r)) (msg_to m))))"
      using id by (simp add: ids isDuplicateDocument_def)
    then show ?thesis
      using messageAdded_result [OF mem'] by simp
  qed
qed

lemma groupAdded_idem:
  assumes "grp_id g \<noteq> None"
  shows "subscribeToGroups_updateQuery (subscribeToGroups_updateQuery u g) g
       = subscribeToGroups_updateQuery u g"
  using assms
  by (simp add: subscribeToGroups_updateQuery_def Let_def isDuplicateDocument_def)

text \<open>
  Claim C5, as amended.  For every subscription event whose entity carries a non-null id:
  when an entity with that id is already in the target list (the messages of the target
  group for messageAdded, the groups of the user for groupAdded), the reducer returns the
  previous result unchanged; and applying the event to the result of applying it gives
  that result again.
\<close>

theorem dedup_returns_previous_result:
  assumes "event_id ev \<noteq> None"
  shows "(event_id ev \<in> set (target_ids u ev) \<longrightarrow> updateQuery u ev = Inr u)
       \<and> (\<forall>r. updateQuery u ev = Inr r \<longrightarrow> updateQuery r ev = Inr r)"
proof (cases ev)
  case (MessageAdded m)
  have "updateQuery u ev = Inr u" if t: "event_id ev \<in> set (target_ids u ev)"
  proof -
    from t MessageAdded have mem: "msg_to m \<in> set (map grp_id (usr_groups u))"
      by (auto simp: find_indexOf split: if_splits)
    with t MessageAdded assms
    have "isDuplicateDocument msg_id m
           (grp_messages (usr_groups u ! nat (indexOf (map grp_id (usr_groups u)) (msg_to m))))"
      by (auto simp: find_indexOf isDuplicateDocument_def list_ex_iff)
    with mem MessageAdded show ?thesis by (simp add: messageAdded_result)
  qed
  moreover have "\<forall>r. updateQuery u ev = Inr r \<longrightarrow> updateQuery r ev = Inr r"
    using assms MessageAdded by (auto intro: messageAdded_idem)
  ultimately show ?thesis by blast
next
  case (GroupAdded g)
  with assms show ?thesis
    using groupAdded_idem [of g u]
    by (auto simp: subscribeToGroups_updateQuery_def Let_def isDuplicateDocument_def list_ex_iff)
qed


theorem dedup_returns_previous_result_witness:
  "updateQuery user0 (MessageAdded (mk_message (Some 5) 7 ''old'')) = Inr user0
   \<and> updateQuery user0 (GroupAdded (mk_group (Some 7) [])) = Inr user0"
  using dedup_returns_previous_result [of "MessageAdded (mk_message (Some 5) 7 ''old'')" user0]
    dedup_returns_previous_result [of "GroupAdded (mk_group (Some 7) [])" user0]
  by (simp add: user0_def mk_group_def mk_message_def)

text \<open>
  Claim C5 as stated fails for an entity whose id is \<^verbatim>\<open>null\<close>: the user has a group
  with id \<^verbatim>\<open>null\<close>, a groupAdded event brings a group with id \<^verbatim>\<open>null\<close>, and the
  reducer appends it instead of returning the previous result.
\<close>

theorem dedup_null_id_counterexample:
  "event_id (GroupAdded (mk_group None [])) \<in> set (target_ids user_null (GroupAdded (mk_group None [])))
   \<and> updateQuery user_null (GroupAdded (mk_group None [])) \<noteq> Inr user_null
   \<and> updateQuery user_null (GroupAdded (mk_group None []))
       = Inr (user_null\<lparr>usr_groups := [mk_group None [], mk_group None []]\<rparr>)"
  by (simp add: user_null_def mk_group_def subscribeToGroups_updateQuery_def
      isDuplicateDocument_def)

section \<open>Entities with a null id\<close>

text \<open>
  Claim C10.  The duplicate checks are false whenever the id of the incoming entity is
  \<^verbatim>\<open>null\<close>, whatever the list holds, so such an entity is inserted by the
  subscription reducers and by the mutation patches; a check that is true, and so a
  discard, needs a non-null id.
\<close>

theorem null_id_is_never_duplicate:
  "(msg_id m = None \<longrightarrow> \<not> isDuplicateMessage m ms \<and> \<not> isDuplicateDocument msg_id m ms)
   \<and> (grp_id g = None \<longrightarrow> \<not> isDuplicateGroup g gs \<and> \<not> isDuplicateDocument grp_id g gs)
   \<and> (isDuplicateMessage m ms \<longrightarrow> msg_id m \<noteq> None)
   \<and> (isDuplicateGroup g gs \<longrightarrow> grp_id g \<noteq> None)
   \<and> (isDuplicateDocument ident_of d ds \<longrightarrow> ident_of d \<noteq> None)
   \<and> (grp_id g = None \<longrightarrow>
        subscribeToGroups_updateQuery u g = u\<lparr>usr_groups := usr_groups u @ [g]\<rparr>)
   \<and> (msg_id m = None \<and> msg_to m \<in> set (map grp_id (usr_groups u)) \<longrightarrow>
        subscribeToMessages_updateQuery u m =
          Inr (u\<lparr>usr_groups := (usr_groups u)[nat (indexOf (map grp_id (usr_groups u)) (msg_to m)) :=
              (usr_groups u ! nat (indexOf (map grp_id (usr_groups u)) (msg_to m)))\<lparr>grp_messages := [m]\<rparr>]\<rparr>))
   \<and> (msg_id m = None \<and> map_of (group_cache s) groupId = Some data \<longrightarrow>
        createMessage_update s groupId m =
          Inr (writeQuery_group s groupId (data\<lparr>grp_messages := m # grp_messages data\<rparr>)))
   \<and> (grp_id g = None \<and> map_of (user_cache s) userId = Some udata \<longrightarrow>
        createGroup_update s userId g =
          Inr (writeQuery_user s userId (udata\<lparr>usr_groups := usr_groups udata @ [g]\<rparr>)))"
proof -
  have 1: "msg_id m = None \<longrightarrow> \<not> isDuplicateMessage m ms \<and> \<not> isDuplicateDocument msg_id m ms"
    by (simp add: isDuplicateMessage_def isDuplicateDocument_def)
  have 2: "grp_id g = None \<longrightarrow> \<not> isDuplicateGroup g gs \<and> \<not> isDuplicateDocument grp_id g gs"
    by (simp add: isDuplicateGroup_def isDuplicateDocument_def)
  have 3: "isDuplicateMessage m ms \<longrightarrow> msg_id m \<noteq> None"
    by (simp add: isDuplicateMessage_def)
  have 4: "isDuplicateGroup g gs \<longrightarrow> grp_id g \<noteq> None"
    by (simp add: isDuplicateGroup_def)
  have 5: "isDuplicateDocument ident_of d ds \<longrightarrow> ident_of d \<noteq> None"
    by (simp add: isDuplicateDocument_def)
  have 6: "grp_id g = None \<longrightarrow>
        subscribeToGroups_updateQuery u g = u\<lparr>usr_groups := usr_groups u @ [g]\<rparr>"
    by (simp add: subscribeToGroups_updateQuery_def isDuplicateDocument_def)
  have 7: "msg_id m = None \<and> msg_to m \<in> set (map grp_id (usr_groups u)) \<longrightarrow>
        subscribeToMessages_updateQuery u m =
          Inr (u\<lparr>usr_groups := (usr_groups u)[nat (indexOf (map grp_id (usr_groups u)) (msg_to m)) :=
              (usr_groups u ! nat (indexOf (map grp_id (usr_groups u)) (msg_to m)))\<lparr>grp_messages := [m]\<rparr>]\<rparr>)"
    by (simp add: messageAdded_result isDuplicateDocument_def)
  have 8: "msg_id m = None \<and> map_of (group_cache s) groupId = Some data \<longrightarrow>
        createMessage_update s groupId m =
          Inr (writeQuery_group s groupId (data\<lparr>grp_messages := m # grp_messages data\<rparr>))"
    by (simp add: createMessage_update_def readQuery_group_def isDuplicateMessage_def)
  have 9: "grp_id g = None \<and> map_of (user_cache s) userId = Some udata \<longrightarrow>
        createGroup_update s userId g =
          Inr (writeQuery_user s userId (udata\<lparr>usr_groups := usr_groups udata @ [g]\<rparr>))"
    by (simp add: createGroup_update_def readQuery_user_def isDuplicateGroup_def)
  from 1 2 3 4 5 6 7 8 9 show ?thesis by blast
qed

theorem null_id_is_never_duplicate_witness:
  "\<not> isDuplicateMessage (mk_message None 7 ''a'') [mk_message None 7 ''b'']
   \<and> subscribeToGroups_updateQuery user_null (mk_group None [])
       = user_null\<lparr>usr_groups := [mk_group None [], mk_group None []]\<rparr>
   \<and> createMessage_update (mk_store 7 [mk_message None 7 ''b'']) 7 (mk_message None 7 ''a'')
       = Inr (mk_store 7 [mk_message None 7 ''a'', mk_message None 7 ''b''])"
  using null_id_is_never_duplicate
    [of "mk_message None 7 ''a''" "[mk_message None 7 ''b'']" "mk_group None []" "[]"
        grp_id "mk_group None []" "[]" user_null "mk_store 7 [mk_message None 7 ''b'']" 7
        "mk_group (Some 7) [mk_message None 7 ''b'']" 1 user_null]
  by (auto simp add: mk_message_def mk_group_def mk_store_def user_null_def writeQuery_group_def)

section \<open>Where the subscription reducers insert\<close>

text \<open>
  Claim C4, as amended.  When the messageAdded reducer inserts a non-duplicate message,
  the messages of the target group in the user result become the list holding just the
  new message, which is thus at its head, and every other group stays as it was; when the
  groupAdded reducer inserts a non-duplicate group, it is appended to the end of the
  groups of the user.
\<close>

theorem subscription_insertion_order:
  "(msg_to m \<in> set (map grp_id (usr_groups u))
      \<and> \<not> isDuplicateDocument msg_id m
            (grp_messages (usr_groups u ! nat (indexOf (map grp_id (usr_groups u)) (msg_to m))))
     \<longrightarrow> (\<exists>r. subscribeToMessages_updateQuery u m = Inr r
            \<and> length (usr_groups r) = length (usr_groups u)
            \<and> grp_messages (usr_groups r ! nat (indexOf (map grp_id (usr_groups u)) (msg_to m))) = [m]
            \<and> grp_id (usr_groups r ! nat (indexOf (map grp_id (usr_groups u)) (msg_to m))) = msg_to m
            \<and> (\<forall>j < length (usr_groups u).
                  j \<noteq> nat (indexOf (map grp_id (usr_groups u)) (msg_to m))
                  \<longrightarrow> usr_groups r ! j = usr_groups u ! j)))
   \<and> (\<not> isDuplicateDocument grp_id g (usr_groups u)
     \<longrightarrow> usr_groups (subscribeToGroups_updateQuery u g) = usr_groups u @ [g])"
proof (intro conjI impI)
  assume a: "msg_to m \<in> set (map grp_id (usr_groups u))
      \<and> \<not> isDuplicateDocument msg_id m
            (grp_messages (usr_groups u ! nat (indexOf (map grp_id (usr_groups u)) (msg_to m))))"
  let ?gi = "nat (indexOf (map grp_id (usr_groups u)) (msg_to m))"
  from a indexOf_in [of "msg_to m" "map grp_id (usr_groups u)"]
  have lt: "?gi < length (usr_groups u)" and at: "grp_id (usr_groups u ! ?gi) = msg_to m"
    by auto
  from a have "subscribeToMessages_updateQuery u m =
      Inr (u\<lparr>usr_groups := (usr_groups u)[?gi := (usr_groups u ! ?gi)\<lparr>grp_messages := [m]\<rparr>]\<rparr>)"
    by (simp add: messageAdded_result)
  with lt at
  show "\<exists>r. subscribeToMessages_updateQuery u m = Inr r
            \<and> length (usr_groups r) = length (usr_groups u)
            \<and> grp_messages (usr_groups r ! ?gi) = [m]
            \<and> grp_id (usr_groups r ! ?gi) = msg_to m
            \<and> (\<forall>j < length (usr_groups u). j \<noteq> ?gi \<longrightarrow> usr_groups r ! j = usr_groups u ! j)"
    by simp
next
  assume "\<not> isDuplicateDocument grp_id g (usr_groups u)"
  then show "usr_groups (subscribeToGroups_updateQuery u g) = usr_groups u @ [g]"
    by (simp add: subscribeToGroups_updateQuery_def)
qed

theorem subscription_insertion_order_witness:
  "subscribeToMessages_updateQuery user0 (mk_message (Some 6) 7 ''hi'')
     = Inr (user0\<lparr>usr_groups := [mk_group (Some 7) [mk_message (Some 6) 7 ''hi'']]\<rparr>)
   \<and> usr_groups (subscribeToGroups_updateQuery user0 (mk_group (Some 8) []))
     = [mk_group (Some 7) [mk_message (Some 5) 7 ''old''], mk_group (Some 8) []]"
  using subscription_insertion_order [of "mk_message (Some 6) 7 ''hi''" user0 "mk_group (Some 8) []"]
  by (simp add: user0_def mk_group_def mk_message_def subscribeToMessages_updateQuery_def
      indexOf_def isDuplicateDocument_def)

text \<open>
  Claim C4 as stated fails for the messages cached before: the reducer sets the list to
  the new message alone, and the message with id 5 that was cached is not kept behind
  the new one.
\<close>

theorem message_not_prepended_counterexample:
  "\<not> isDuplicateDocument msg_id (mk_message (Some 6) 7 ''hi'') [mk_message (Some 5) 7 ''old'']
   \<and> subscribeToMessages_updateQuery user0 (mk_message (Some 6) 7 ''hi'')
       = Inr (user0\<lparr>usr_groups := [mk_group (Some 7) [mk_message (Some 6) 7 ''hi'']]\<rparr>)
   \<and> subscribeToMessages_updateQuery user0 (mk_message (Some 6) 7 ''hi'')
       \<noteq> Inr (user0\<lparr>usr_groups :=
            [mk_group (Some 7) [mk_message (Some 6) 7 ''hi'', mk_message (Some 5) 7 ''old'']]\<rparr>)"
  by (simp add: user0_def mk_group_def mk_message_def subscribeToMessages_updateQuery_def
      indexOf_def isDuplicateDocument_def)

section \<open>Sign-out on an unauthorized batch\<close>

lemma scan_responses_flag:
  "fst (scan_responses rs (b, lg)) = (b \<or> list_ex unauthorized rs)"
  by (induction rs arbitrary: b lg) (auto simp: unauthorized_def split: option.splits)

text \<open>
  Claim C6.  For every batch of responses the afterware dispatches the sign-out action
  exactly once when at least one response carries an error with the message
  \<^verbatim>\<open>Unauthorized\<close>, however many responses carry it, and not at all otherwise; it calls
  \<^verbatim>\<open>next\<close> once and hands every response on as it came, so each operation settles by
  its own result.
\<close>

theorem batch_auth_signs_out_once:
  "dispatched (applyBatchAfterware responses)
      = (if list_ex unauthorized responses then [Logout] else [])
   \<and> length (filter (\<lambda>a. a = Logout) (dispatched (applyBatchAfterware responses)))
      = (if list_ex unauthorized responses then 1 else 0)
   \<and> next_calls (applyBatchAfterware responses) = 1
   \<and> passed_on (applyBatchAfterware responses) = responses"
proof -
  obtain b lg where sc: "scan_responses responses (False, []) = (b, lg)"
    by (cases "scan_responses responses (False, [])")
  with scan_responses_flag [of responses False "[]"]
  have "b = list_ex unauthorized responses" by simp
  with sc show ?thesis by (simp add: applyBatchAfterware_def)
qed

theorem batch_auth_signs_out_once_witness:
  "dispatched (applyBatchAfterware
      [ok_response, failed_response ''Unauthorized'', failed_response ''Not found'']) = [Logout]
   \<and> dispatched (applyBatchAfterware
      [failed_response ''Unauthorized'', failed_response ''Unauthorized'', ok_response]) = [Logout]
   \<and> dispatched (applyBatchAfterware [ok_response, failed_response ''Not found'']) = []
   \<and> passed_on (applyBatchAfterware
      [ok_response, failed_response ''Unauthorized'', failed_response ''Not found''])
      = [ok_response, failed_response ''Unauthorized'', failed_response ''Not found'']"
  using batch_auth_signs_out_once
      [of "[ok_response, failed_response ''Unauthorized'', failed_response ''Not found'']"]
    batch_auth_signs_out_once
      [of "[failed_response ''Unauthorized'', failed_response ''Unauthorized'', ok_response]"]
    batch_auth_signs_out_once [of "[ok_response, failed_response ''Not found'']"]
  by (simp add: unauthorized_def ok_response_def failed_response_def)

section \<open>The credential is read when a network action is prepared\<close>

lemma client_run_credential:
  "auth_jwt (cl_app (fst (client_run c evs))) = credential_after (auth_jwt (cl_app c)) evs"
proof (induction evs arbitrary: c)
  case Nil
  then show ?case by simp
next
  case (Cons ev evs)
  obtain c' actions where st: "client_step c ev = (c', actions)"
    by (cases "client_step c ev")
  have "credential_after (auth_jwt (cl_app c)) (ev # evs) = credential_after (auth_jwt (cl_app c')) evs"
    using st by (cases ev) (auto split: prod.splits)
  moreover obtain c'' later where rn: "client_run c' evs = (c'', later)"
    by (cases "client_run c' evs")
  ultimately show ?case
    using Cons.IH [of c'] st by simp
qed

lemma channel_step_attempts:
  "set (snd (channel_step st ch ev)) \<subseteq> {connectionParams st}"
  by (cases ch; cases ev) simp_all

lemma middleware_present:
  assumes "truthy (auth_jwt st)"
  shows "\<exists>h. req_headers (fst (applyBatchMiddleware st req)) = Some h
         \<and> map_of h ''authorization'' = Some (''Bearer '' @ the (auth_jwt st))"
  using assms by (simp add: applyBatchMiddleware_def Let_def update_conv')

lemma middleware_absent:
  assumes "\<not> truthy (auth_jwt st)"
  shows "req_headers (fst (applyBatchMiddleware st req))
        = Some (case req_headers req of None \<Rightarrow> [] | Some h \<Rightarrow> h)"
  using assms by (simp add: applyBatchMiddleware_def Let_def)

text \<open>
  Claim C8.  Take any client and any sequence of credential events, batches and channel
  events, and let the credential in force be the one last set and not cleared since.
  A batch prepared at that point leaves with \<^verbatim>\<open>Bearer\<close> and that credential as its
  authorization header when the credential is present (a non-empty string), and with the
  headers it came with, none being attached, when it is absent.  Every connection or
  reconnection attempt the channel makes at that point sends that credential as its
  metadata.  The attempt is made whatever the credential is, absent or cleared included:
  the first subscription of an idle channel makes one attempt, and so does every firing of
  the retry timer while the channel is reconnecting.
\<close>

theorem credential_read_at_point_of_use:
  "(\<exists>r. snd (client_step (fst (client_run c pre)) (BatchPrepared req)) = [BatchSent r]
      \<and> (truthy (credential_after (auth_jwt (cl_app c)) pre) \<longrightarrow>
           (\<exists>h. req_headers r = Some h
              \<and> map_of h ''authorization''
                  = Some (''Bearer '' @ the (credential_after (auth_jwt (cl_app c)) pre))))
      \<and> (\<not> truthy (credential_after (auth_jwt (cl_app c)) pre) \<longrightarrow>
           req_headers r = Some (case req_headers req of None \<Rightarrow> [] | Some h \<Rightarrow> h)))
   \<and> (\<forall>a \<in> set (snd (client_step (fst (client_run c pre)) (Channel ev))).
        a = ConnectAttempt \<lparr>cp_jwt = credential_after (auth_jwt (cl_app c)) pre\<rparr>)
   \<and> (cl_channel (fst (client_run c pre)) = Idle \<longrightarrow>
        client_step (fst (client_run c pre)) (Channel Subscribe)
          = ((fst (client_run c pre))\<lparr>cl_channel := Connecting\<rparr>,
             [ConnectAttempt \<lparr>cp_jwt = credential_after (auth_jwt (cl_app c)) pre\<rparr>]))
   \<and> (cl_channel (fst (client_run c pre)) = Reconnecting \<longrightarrow>
        client_step (fst (client_run c pre)) (Channel RetryTimer)
          = ((fst (client_run c pre))\<lparr>cl_channel := Reconnecting\<rparr>,
             [ConnectAttempt \<lparr>cp_jwt = credential_after (auth_jwt (cl_app c)) pre\<rparr>]))"
proof -
  let ?c = "fst (client_run c pre)"
  let ?cred = "credential_after (auth_jwt (cl_app c)) pre"
  have cred: "auth_jwt (cl_app ?c) = ?cred" by (rule client_run_credential)
  have 1: "\<exists>r. snd (client_step ?c (BatchPrepared req)) = [BatchSent r]
      \<and> (truthy ?cred \<longrightarrow>
           (\<exists>h. req_headers r = Some h \<and> map_of h ''authorization'' = Some (''Bearer '' @ the ?cred)))
      \<and> (\<not> truthy ?cred \<longrightarrow>
           req_headers r = Some (case req_headers req of None \<Rightarrow> [] | Some h \<Rightarrow> h))"
    using middleware_present [of "cl_app ?c" req] middleware_absent [of "cl_app ?c" req]
    by (simp add: cred)
  have 2: "\<forall>a \<in> set (snd (client_step ?c (Channel ev))). a = ConnectAttempt \<lparr>cp_jwt = ?cred\<rparr>"
    using channel_step_attempts [of "cl_app ?c" "cl_channel ?c" ev]
    by (auto simp: connectionParams_def cred split: prod.splits)
  have 3: "cl_channel ?c = Idle \<longrightarrow>
        client_step ?c (Channel Subscribe)
          = (?c\<lparr>cl_channel := Connecting\<rparr>, [ConnectAttempt \<lparr>cp_jwt = ?cred\<rparr>])"
    by (simp add: connectionParams_def cred)
  have 4: "cl_channel ?c = Reconnecting \<longrightarrow>
        client_step ?c (Channel RetryTimer)
          = (?c\<lparr>cl_channel := Reconnecting\<rparr>, [ConnectAttempt \<lparr>cp_jwt = ?cred\<rparr>])"
    by (simp add: connectionParams_def cred)
  from 1 2 3 4 show ?thesis by blast
qed

theorem credential_read_at_point_of_use_witness:
  "client_run client0 session0
     = (\<lparr>cl_app = signed_out, cl_channel = Reconnecting\<rparr>,
        [BatchSent \<lparr>req_headers = Some [(''authorization'', ''Bearer abc'')]\<rparr>,
         ConnectAttempt \<lparr>cp_jwt = Some ''abc''\<rparr>])
   \<and> credential_after None session0 = None
   \<and> snd (client_step (fst (client_run client0 session0)) (BatchPrepared fresh_request))
       = [BatchSent \<lparr>req_headers = Some []\<rparr>]
   \<and> snd (client_step (fst (client_run client0 session0)) (Channel RetryTimer))
       = [ConnectAttempt \<lparr>cp_jwt = None\<rparr>]
   \<and> snd (client_step (fst (client_run client0 [CredentialSet ''abc''])) (Channel Subscribe))
       = [ConnectAttempt \<lparr>cp_jwt = Some ''abc''\<rparr>]
   \<and> snd (client_step (fst (client_run client0 [])) (Channel Subscribe))
       = [ConnectAttempt \<lparr>cp_jwt = None\<rparr>]"
proof -
  have r: "client_run client0 session0
     = (\<lparr>cl_app = signed_out, cl_channel = Reconnecting\<rparr>,
        [BatchSent \<lparr>req_headers = Some [(''authorization'', ''Bearer abc'')]\<rparr>,
         ConnectAttempt \<lparr>cp_jwt = Some ''abc''\<rparr>])"
    by (simp add: client0_def session0_def signed_out_def fresh_request_def
        applyBatchMiddleware_def truthy_def connectionParams_def)
  have a: "credential_after None session0 = None"
    by (simp add: session0_def)
  have j: "auth_jwt (cl_app client0) = None"
    by (simp add: client0_def signed_out_def)
  from credential_read_at_point_of_use [of client0 session0 fresh_request RetryTimer]
  have b: "snd (client_step (fst (client_run client0 session0)) (BatchPrepared fresh_request))
       = [BatchSent \<lparr>req_headers = Some []\<rparr>]"
    and c: "snd (client_step (fst (client_run client0 session0)) (Channel RetryTimer))
       = [ConnectAttempt \<lparr>cp_jwt = None\<rparr>]"
    by (auto simp: r a j truthy_def fresh_request_def)
  from credential_read_at_point_of_use [of client0 "[CredentialSet ''abc'']" fresh_request Subscribe]
  have d: "snd (client_step (fst (client_run client0 [CredentialSet ''abc''])) (Channel Subscribe))
       = [ConnectAttempt \<lparr>cp_jwt = Some ''abc''\<rparr>]"
    by (simp add: j client0_def)
  from credential_read_at_point_of_use [of client0 "[]" fresh_request Subscribe]
  have e: "snd (client_step (fst (client_run client0 [])) (Channel Subscribe))
       = [ConnectAttempt \<lparr>cp_jwt = None\<rparr>]"
    by (simp add: client0_def signed_out_def)
  from r a b c d e show ?thesis by simp
qed

section \<open>No two cached entities with the same id\<close>

lemma unique_ids_Cons:
  "unique_ids (i # ids) \<longleftrightarrow> (i = None \<or> i \<notin> set ids) \<and> unique_ids ids"
  by (auto simp: unique_ids_def)

lemma unique_ids_snoc:
  "unique_ids (ids @ [i]) \<longleftrightarrow> (i = None \<or> i \<notin> set ids) \<and> unique_ids ids"
  by (auto simp: unique_ids_def)

lemma unique_ids_filter:
  "unique_ids (map f xs) \<Longrightarrow> unique_ids (map f (filter P xs))"
  by (induction xs) (auto simp: unique_ids_Cons)

lemma unique_ids_count:
  "unique_ids (map msg_id ms) \<Longrightarrow> count_id (Some i) ms \<le> 1"
proof (induction ms)
  case Nil
  then show ?case by (simp add: count_id_def)
next
  case (Cons m ms)
  show ?case
  proof (cases "msg_id m = Some i")
    case True
    with Cons.prems have "Some i \<notin> set (map msg_id ms)"
      by (simp add: unique_ids_Cons)
    then have "filter (\<lambda>m. msg_id m = Some i) ms = []"
      by (force simp: filter_empty_conv)
    with True show ?thesis by (simp add: count_id_def)
  next
    case False
    with Cons show ?thesis by (simp add: count_id_def unique_ids_Cons)
  qed
qed

lemma list_all_snd_update:
  "list_all (\<lambda>kv. Q (snd kv)) al \<Longrightarrow> Q v \<Longrightarrow> list_all (\<lambda>kv. Q (snd kv)) (AList.update k v al)"
  by (induction al) auto

lemma list_all_snd_map_of:
  "list_all (\<lambda>kv. Q (snd kv)) al \<Longrightarrow> map_of al k = Some v \<Longrightarrow> Q v"
proof -
  assume a: "list_all (\<lambda>kv. Q (snd kv)) al" and m: "map_of al k = Some v"
  from map_of_SomeD [OF m] have "(k, v) \<in> set al" .
  with a have "Q (snd (k, v))" unfolding list_all_iff by blast
  then show "Q v" by simp
qed

lemma list_all_list_update:
  "list_all P xs \<Longrightarrow> P y \<Longrightarrow> list_all P (xs[i := y])"
  using set_update_subset_insert [of xs i y] by (auto simp: list_all_iff)

lemma user_ok_push:
  assumes "user_ok u" and "group_ok g" and "\<not> isDuplicateDocument grp_id g (usr_groups u)"
  shows "user_ok (u\<lparr>usr_groups := usr_groups u @ [g]\<rparr>)"
  using assms
  by (auto simp: user_ok_def unique_ids_snoc isDuplicateDocument_def list_ex_iff)

lemma user_ok_filter:
  assumes "user_ok u"
  shows "user_ok (u\<lparr>usr_groups := filter P (usr_groups u)\<rparr>)"
  using assms by (auto simp: user_ok_def unique_ids_filter list_all_iff)

lemma createMessage_update_ok:
  assumes "store_ok s" and "createMessage_update s groupId m = Inr s'"
  shows "store_ok s'"
proof (cases "map_of (group_cache s) groupId")
  case None
  with assms show ?thesis by (simp add: createMessage_update_def readQuery_group_def)
next
  case (Some data)
  from assms(1) Some have d: "group_ok data"
    by (auto simp: store_ok_def intro: list_all_snd_map_of [where Q = group_ok])
  show ?thesis
  proof (cases "isDuplicateMessage m (grp_messages data)")
    case True
    with assms Some show ?thesis by (simp add: createMessage_update_def readQuery_group_def)
  next
    case False
    with d have "group_ok (data\<lparr>grp_messages := m # grp_messages data\<rparr>)"
      by (auto simp: group_ok_def unique_ids_Cons isDuplicateMessage_def list_ex_iff)
    with assms Some False show ?thesis
      by (auto simp: createMessage_update_def readQuery_group_def writeQuery_group_def
          store_ok_def intro: list_all_snd_update [where Q = group_ok])
  qed
qed

lemma createGroup_update_ok:
  assumes "store_ok s" and "group_ok g" and "createGroup_update s userId g = Inr s'"
  shows "store_ok s'"
proof (cases "map_of (user_cache s) userId")
  case None
  with assms show ?thesis by (simp add: createGroup_update_def readQuery_user_def)
next
  case (Some data)
  from assms(1) Some have d: "user_ok data"
    by (auto simp: store_ok_def intro: list_all_snd_map_of [where Q = user_ok])
  show ?thesis
  proof (cases "isDuplicateGroup g (usr_groups data)")
    case True
    with assms Some show ?thesis by (simp add: createGroup_update_def readQuery_user_def)
  next
    case False
    then have "\<not> isDuplicateDocument grp_id g (usr_groups data)"
      by (simp add: isDuplicateGroup_def isDuplicateDocument_def)
    from user_ok_push [OF d assms(2) this] assms Some False show ?thesis
      by (auto simp: createGroup_update_def readQuery_user_def writeQuery_user_def
          store_ok_def intro: list_all_snd_update [where Q = user_ok])
  qed
qed

lemma filter_update_ok:
  assumes "store_ok s"
    and "(case readQuery_user s 1 of Inl e \<Rightarrow> Inl e
          | Inr data \<Rightarrow> Inr (writeQuery_user s 1
               (data\<lparr>usr_groups := filter P (usr_groups data)\<rparr>))) = Inr s'"
  shows "store_ok s'"
proof (cases "map_of (user_cache s) 1")
  case None
  with assms show ?thesis by (simp add: readQuery_user_def)
next
  case (Some data)
  from assms(1) Some have d: "user_ok data"
    by (auto simp: store_ok_def intro: list_all_snd_map_of [where Q = user_ok])
  from user_ok_filter [OF d, of P] assms Some show ?thesis
    by (auto simp: readQuery_user_def writeQuery_user_def
        store_ok_def intro: list_all_snd_update [where Q = user_ok])
qed

lemma messageAdded_ok:
  assumes "user_ok u" and "subscribeToMessages_updateQuery u m = Inr r"
  shows "user_ok r"
proof -
  let ?gi = "nat (indexOf (map grp_id (usr_groups u)) (msg_to m))"
  have mem: "msg_to m \<in> set (map grp_id (usr_groups u))"
  proof (rule ccontr)
    assume "msg_to m \<notin> set (map grp_id (usr_groups u))"
    from indexOf_notin [OF this] assms(2) show False
      by (simp add: subscribeToMessages_updateQuery_def Let_def)
  qed
  show ?thesis
  proof (cases "isDuplicateDocument msg_id m (grp_messages (usr_groups u ! ?gi))")
    case True
    with assms mem show ?thesis by (simp add: messageAdded_result)
  next
    case False
    with assms(2) mem have req: "r = u\<lparr>usr_groups := (usr_groups u)[?gi :=
              (usr_groups u ! ?gi)\<lparr>grp_messages := [m]\<rparr>]\<rparr>"
      by (simp add: messageAdded_result)
    have "group_ok ((usr_groups u ! ?gi)\<lparr>grp_messages := [m]\<rparr>)"
      by (simp add: group_ok_def unique_ids_def)
    with assms(1) show ?thesis
      by (simp add: req user_ok_def map_grp_id_update list_all_list_update)
  qed
qed

lemma groupAdded_ok:
  assumes "user_ok u" and "group_ok g"
  shows "user_ok (subscribeToGroups_updateQuery u g)"
  using assms user_ok_push [of u g]
  by (auto simp: subscribeToGroups_updateQuery_def Let_def)

lemma apply_updateQuery_ok:
  assumes "store_ok s" and "event_ok (Subscription ev)" and "apply_updateQuery s ev = Inr s'"
  shows "store_ok s'"
proof (cases "map_of (user_cache s) 1")
  case None
  with assms show ?thesis by (simp add: apply_updateQuery_def readQuery_user_def)
next
  case (Some prev)
  from assms(1) Some have d: "user_ok prev"
    by (auto simp: store_ok_def intro: list_all_snd_map_of [where Q = user_ok])
  from assms(3) Some obtain r where r: "updateQuery prev ev = Inr r"
    and s': "s' = writeQuery_user s 1 r"
    by (auto simp: apply_updateQuery_def readQuery_user_def split: sum.splits)
  have "user_ok r"
  proof (cases ev)
    case (MessageAdded m)
    with r d show ?thesis by (auto intro: messageAdded_ok)
  next
    case (GroupAdded g)
    with r d assms(2) show ?thesis by (auto intro: groupAdded_ok)
  qed
  with assms(1) show ?thesis
    by (auto simp: s' writeQuery_user_def store_ok_def
        intro: list_all_snd_update [where Q = user_ok])
qed

lemma apply_event_ok:
  assumes "store_ok s" and "event_ok ev" and "apply_event s ev = Inr s'"
  shows "store_ok s'"
proof (cases ev)
  case (CreateMessageResult groupId m)
  with assms show ?thesis by (auto intro: createMessage_update_ok)
next
  case (CreateGroupResult userId g)
  with assms show ?thesis by (auto intro: createGroup_update_ok)
next
  case (DeleteGroupResult i)
  with assms show ?thesis
    by (auto simp: deleteGroup_update_def intro: filter_update_ok)
next
  case (LeaveGroupResult i)
  with assms show ?thesis
    by (auto simp: leaveGroup_update_def intro: filter_update_ok)
next
  case (Subscription sev)
  with assms show ?thesis by (auto intro: apply_updateQuery_ok)
qed

lemma run_ok: "store_ok s \<Longrightarrow> list_all event_ok evs \<Longrightarrow> store_ok (run s evs)"
proof (induction evs arbitrary: s)
  case Nil
  then show ?case by simp
next
  case (Cons ev evs)
  then have "store_ok (case apply_event s ev of Inl e \<Rightarrow> s | Inr s' \<Rightarrow> s')"
    by (auto split: sum.splits intro: apply_event_ok)
  with Cons show ?case by simp
qed

lemma store_ok_at_most_one: "store_ok s \<Longrightarrow> at_most_one (Some i) s"
  unfolding store_ok_def at_most_one_def list_all_iff group_ok_def
  using unique_ids_count by blast

text \<open>
  Claim C2, as amended.  Start from a cache in which no messages list and no groups list
  holds two entries with the same non-null id, and let every group sent by the server
  bring messages with that property.  Then after every sequence of mutation patches
  (createMessage, createGroup, deleteGroup, leaveGroup) and subscription events
  (messageAdded, groupAdded) the same holds of every cached group result and user result;
  in particular at most one message of a cached group carries a given non-null id, such
  as the sentinel -1.
\<close>

theorem no_duplicate_non_null_ids:
  assumes "store_ok s" and "list_all event_ok evs"
  shows "store_ok (run s evs) \<and> at_most_one (Some i) (run s evs)"
  using run_ok [OF assms] store_ok_at_most_one by blast

theorem no_duplicate_non_null_ids_witness:
  "store_ok store0 \<and> list_all event_ok events0
   \<and> store_ok (run store0 events0) \<and> at_most_one (Some (- 1)) (run store0 events0)"
proof -
  have a: "store_ok store0"
    by (simp add: store0_def user0_def store_ok_def user_ok_def group_ok_def unique_ids_def
        mk_group_def mk_message_def)
  have b: "list_all event_ok events0"
    by (simp add: events0_def group_ok_def unique_ids_def mk_group_def)
  from no_duplicate_non_null_ids [OF a b, of "- 1"] a b show ?thesis by simp
qed

text \<open>
  Claim C2 as stated fails for entries whose id is \<^verbatim>\<open>null\<close>: two createMessage
  results with id \<^verbatim>\<open>null\<close> are both put in front of the messages of the group, which
  then holds two entries with equal id.
\<close>

theorem duplicate_null_ids_counterexample:
  "store_ok (mk_store 7 [])
   \<and> messages_of (run (mk_store 7 [])
        [CreateMessageResult 7 (mk_message None 7 ''a''),
         CreateMessageResult 7 (mk_message None 7 ''b'')]) 7
      = [mk_message None 7 ''b'', mk_message None 7 ''a'']
   \<and> \<not> distinct (map msg_id [mk_message None 7 ''b'', mk_message None 7 ''a''])"
  by (simp add: mk_store_def mk_group_def mk_message_def store_ok_def group_ok_def
      unique_ids_def createMessage_update_def readQuery_group_def writeQuery_group_def
      isDuplicateMessage_def messages_of_def)

section \<open>Optimistic messages\<close>

lemma messages_of_writeQuery_group:
  "messages_of (writeQuery_group s groupId g) groupId = grp_messages g"
  by (simp add: messages_of_def writeQuery_group_def update_conv')

lemma createMessage_update_fresh:
  assumes "map_of (group_cache s) groupId = Some data"
    and "count_id (msg_id m) (grp_messages data) = 0"
  shows "createMessage_update s groupId m
       = Inr (writeQuery_group s groupId (data\<lparr>grp_messages := m # grp_messages data\<rparr>))"
  using assms
  by (simp add: createMessage_update_def readQuery_group_def isDuplicateMessage_def
      list_ex_count_id)

text \<open>
  Claim C3.  A createMessage mutation is issued with the speculative message of id -1,
  for a group whose cached messages hold neither that id nor the id the server will give
  (such as 42).  While the request is in flight the speculative message is in front of the
  cached messages; once the authoritative response is processed the cached messages are
  the authoritative message in front of the earlier ones: one message with the server's
  id and none with the sentinel.
\<close>

theorem optimistic_message_superseded:
  assumes "map_of (group_cache s) groupId = Some data"
    and "msg_id authoritative = Some i" and "i \<noteq> - 1"
    and "count_id (Some i) (grp_messages data) = 0"
    and "count_id (Some (- 1)) (grp_messages data) = 0"
  shows "messages_of (visible (\<lambda>st. createMessage_update st groupId)
            (mutate_issue s (Some (optimisticResponse txt groupId now)))) groupId
          = optimisticResponse txt groupId now # grp_messages data
       \<and> snd (mutate_settle (\<lambda>st. createMessage_update st groupId)
            (mutate_issue s (Some (optimisticResponse txt groupId now))) (Inr authoritative))
          = Inr authoritative
       \<and> pending (fst (mutate_settle (\<lambda>st. createMessage_update st groupId)
            (mutate_issue s (Some (optimisticResponse txt groupId now))) (Inr authoritative)))
          = None
       \<and> messages_of (visible (\<lambda>st. createMessage_update st groupId)
            (fst (mutate_settle (\<lambda>st. createMessage_update st groupId)
              (mutate_issue s (Some (optimisticResponse txt groupId now))) (Inr authoritative))))
            groupId
          = authoritative # grp_messages data
       \<and> count_id (Some i) (authoritative # grp_messages data) = 1
       \<and> count_id (Some (- 1)) (authoritative # grp_messages data) = 0"
proof -
  let ?patch = "\<lambda>st. createMessage_update st groupId"
  let ?spec = "optimisticResponse txt groupId now"
  have sp: "createMessage_update s groupId ?spec
       = Inr (writeQuery_group s groupId (data\<lparr>grp_messages := ?spec # grp_messages data\<rparr>))"
    using assms(1,5) by (intro createMessage_update_fresh) (simp_all add: optimisticResponse_def)
  have au: "createMessage_update s groupId authoritative
       = Inr (writeQuery_group s groupId (data\<lparr>grp_messages := authoritative # grp_messages data\<rparr>))"
    using assms(1,2,4) by (intro createMessage_update_fresh) simp_all
  have 1: "messages_of (visible ?patch (mutate_issue s (Some ?spec))) groupId
          = ?spec # grp_messages data"
    by (simp add: visible_def mutate_issue_def sp messages_of_writeQuery_group)
  have st: "mutate_settle ?patch (mutate_issue s (Some ?spec)) (Inr authoritative)
      = (\<lparr>base = writeQuery_group s groupId (data\<lparr>grp_messages := authoritative # grp_messages data\<rparr>),
          pending = None\<rparr>, Inr authoritative)"
    by (simp add: mutate_settle_def mutate_issue_def au)
  have 4: "messages_of (visible ?patch (fst (mutate_settle ?patch (mutate_issue s (Some ?spec))
              (Inr authoritative)))) groupId = authoritative # grp_messages data"
    by (simp add: st visible_def messages_of_writeQuery_group)
  have 5: "count_id (Some i) (authoritative # grp_messages data) = 1"
    using assms(2,4) by (simp add: count_id_def)
  have 6: "count_id (Some (- 1)) (authoritative # grp_messages data) = 0"
    using assms(2,3,5) by (simp add: count_id_def)
  from 1 st 4 5 6 show ?thesis by simp
qed

theorem optimistic_message_superseded_witness:
  "messages_of (visible (\<lambda>st. createMessage_update st 7)
      (mutate_issue (mk_store 7 []) (Some (optimisticResponse ''hi'' 7 ''now'')))) 7
     = [optimisticResponse ''hi'' 7 ''now'']
   \<and> messages_of (visible (\<lambda>st. createMessage_update st 7)
        (fst (mutate_settle (\<lambda>st. createMessage_update st 7)
          (mutate_issue (mk_store 7 []) (Some (optimisticResponse ''hi'' 7 ''now'')))
          (Inr (mk_message (Some 42) 7 ''hi''))))) 7
     = [mk_message (Some 42) 7 ''hi'']"
  using optimistic_message_superseded
    [of "mk_store 7 []" 7 "mk_group (Some 7) []" "mk_message (Some 42) 7 ''hi''" 42 "''hi''" "''now''"]
  by (simp add: mk_store_def mk_group_def mk_message_def count_id_def)

text \<open>
  Claim C7.  When a mutation issued with a speculative result fails, the error is handed
  to the caller, the speculative result is no longer pending and the visible cache is the
  cache as it was before the mutation was issued.
\<close>

theorem failed_mutation_reverts_speculative_write:
  "snd (mutate_settle patch (mutate_issue s speculativeResult) (Inl e)) = Inl e
   \<and> visible patch (fst (mutate_settle patch (mutate_issue s speculativeResult) (Inl e))) = s
   \<and> pending (fst (mutate_settle patch (mutate_issue s speculativeResult) (Inl e))) = None"
  by (simp add: mutate_settle_def mutate_issue_def visible_def)

theorem failed_mutation_reverts_speculative_write_witness:
  "messages_of (visible (\<lambda>st. createMessage_update st 7)
      (mutate_issue (mk_store 7 []) (Some (optimisticResponse ''hi'' 7 ''now'')))) 7
     = [optimisticResponse ''hi'' 7 ''now'']
   \<and> snd (mutate_settle (\<lambda>st. createMessage_update st 7)
        (mutate_issue (mk_store 7 []) (Some (optimisticResponse ''hi'' 7 ''now'')))
        (Inl (OperationError ''Unauthorized''))) = Inl (OperationError ''Unauthorized'')
   \<and> visible (\<lambda>st. createMessage_update st 7)
        (fst (mutate_settle (\<lambda>st. createMessage_update st 7)
          (mutate_issue (mk_store 7 []) (Some (optimisticResponse ''hi'' 7 ''now'')))
          (Inl (OperationError ''Unauthorized'')))) = mk_store 7 []"
proof -
  have "messages_of (visible (\<lambda>st. createMessage_update st 7)
      (mutate_issue (mk_store 7 []) (Some (optimisticResponse ''hi'' 7 ''now'')))) 7
     = [optimisticResponse ''hi'' 7 ''now'']"
    by (simp add: visible_def mutate_issue_def createMessage_update_def readQuery_group_def
        writeQuery_group_def isDuplicateMessage_def messages_of_def mk_store_def mk_group_def)
  with failed_mutation_reverts_speculative_write
    [of "\<lambda>st. createMessage_update st 7" "mk_store 7 []"
        "Some (optimisticResponse ''hi'' 7 ''now'')" "OperationError ''Unauthorized''"]
  show ?thesis by blast
qed

end
